theory Spec2Isabelle
  imports Complex_Main
begin

section \<open>Python values and built-ins used by \<open>GetIUEDataset\<close> (src/Mast.py)\<close>

text \<open>
  The exceptions the decoder can raise are the ones of the Python built-ins it calls:
  \<open>IndexError\<close> from subscripting and \<open>del\<close>, \<open>ValueError\<close> from \<open>float()\<close> and
  \<open>int()\<close>. The \<open>ValueError\<close> carries the text that failed to convert, as Python's
  message does. The source defines no exception of its own for the decoder.
\<close>

datatype error = IndexError | ValueError string

definition rbind :: "error + 'a \<Rightarrow> ('a \<Rightarrow> error + 'b) \<Rightarrow> error + 'b" where
  "rbind m f = (case m of Inl e \<Rightarrow> Inl e | Inr x \<Rightarrow> f x)"

text \<open>\<open>xs[i]\<close> for a non-negative \<open>i\<close>, \<open>xs[-1]\<close> and \<open>del xs[i]\<close>.\<close>

definition index :: "'a list \<Rightarrow> nat \<Rightarrow> error + 'a" where
  "index xs i = (if i < length xs then Inr (xs ! i) else Inl IndexError)"

definition last_item :: "'a list \<Rightarrow> error + 'a" where
  "last_item xs = (if xs = [] then Inl IndexError else Inr (last xs))"

definition del_item :: "'a list \<Rightarrow> nat \<Rightarrow> error + 'a list" where
  "del_item xs i = (if i < length xs then Inr (take i xs @ drop (Suc i) xs) else Inl IndexError)"

text \<open>
  \<open>s.split(c)\<close> for a one-character separator. The result is never empty, so the
  first case of the \<open>case\<close> below is never taken.
\<close>

fun str_split :: "char \<Rightarrow> string \<Rightarrow> string list" where
  "str_split c [] = [] # []"
| "str_split c (x # xs) =
     (case str_split c xs of
        [] \<Rightarrow> [x] # []
      | p # ps \<Rightarrow> if x = c then [] # p # ps else (x # p) # ps)"

text \<open>\<open>s.strip()\<close>: removes the whitespace characters of Python 2's \<open>str\<close> at both ends.\<close>

definition is_space :: "char \<Rightarrow> bool" where
  "is_space c = (c \<in> set [CHR 0x20, CHR 0x09, CHR 0x0A, CHR 0x0B, CHR 0x0C, CHR 0x0D])"

definition str_strip :: "string \<Rightarrow> string" where
  "str_strip s = rev (dropWhile is_space (rev (dropWhile is_space s)))"

text \<open>\<open>sep.join(xs)\<close>.\<close>

fun str_join :: "string \<Rightarrow> string list \<Rightarrow> string" where
  "str_join sep [] = []"
| "str_join sep [x] = x"
| "str_join sep (x # y # ys) = x @ sep @ str_join sep (y # ys)"

text \<open>\<open>int(s)\<close> on a string, base 10: surrounding whitespace, an optional sign, digits.\<close>

definition is_digit :: "char \<Rightarrow> bool" where
  "is_digit c = (48 \<le> (of_char c :: nat) \<and> (of_char c :: nat) \<le> 57)"

definition digit_val :: "char \<Rightarrow> nat" where
  "digit_val c = of_char c - 48"

definition digits_val :: "string \<Rightarrow> nat option" where
  "digits_val s =
     (if s \<noteq> [] \<and> list_all is_digit s
      then Some (foldl (\<lambda>n c. 10 * n + digit_val c) 0 s) else None)"

definition int_of_str :: "string \<Rightarrow> int option" where
  "int_of_str s =
     (case str_strip s of
        [] \<Rightarrow> None
      | c # r \<Rightarrow>
          if c = CHR ''-'' then map_option (\<lambda>n. - int n) (digits_val r)
          else if c = CHR ''+'' then map_option int (digits_val r)
          else map_option int (digits_val (c # r)))"

definition to_int :: "string \<Rightarrow> error + int" where
  "to_int s = (case int_of_str s of None \<Rightarrow> Inl (ValueError s) | Some k \<Rightarrow> Inr k)"

text \<open>
  Python's \<open>float\<close> is an IEEE double. The decoder uses four operations on it: the
  conversion \<open>float(s)\<close>, the conversion of an \<open>int\<close>, \<open>*\<close> and \<open>+\<close>. The model takes
  them as a record over an arbitrary carrier \<open>'f\<close>, so every theorem holds for whatever
  these operations compute, rounding included. The test \<open>flux[i] == -1\<close> compares with
  the one double that equals the integer \<open>-1\<close>, which is \<open>float_of_int F (- 1)\<close>.
\<close>

record 'f float_ops =
  float_of_str :: "string \<Rightarrow> 'f option"
  float_of_int :: "int \<Rightarrow> 'f"
  fmul :: "'f \<Rightarrow> 'f \<Rightarrow> 'f"
  fadd :: "'f \<Rightarrow> 'f \<Rightarrow> 'f"

definition to_float :: "'f float_ops \<Rightarrow> string \<Rightarrow> error + 'f" where
  "to_float F s = (case float_of_str F s of None \<Rightarrow> Inl (ValueError s) | Some v \<Rightarrow> Inr v)"

definition sentinel :: "'f float_ops \<Rightarrow> 'f" where
  "sentinel F = float_of_int F (- 1)"

subsection \<open>An exact decimal instance of the float operations\<close>

text \<open>
  Decimal literals read as exact rationals: an optional sign, digits with an optional
  fraction, an optional exponent. It is the instance at which the theorems below are
  evaluated on concrete records.
\<close>

definition dec_mantissa :: "string \<Rightarrow> rat option" where
  "dec_mantissa s =
     (let ip = takeWhile (\<lambda>c. c \<noteq> CHR ''.'') s; rest = dropWhile (\<lambda>c. c \<noteq> CHR ''.'') s
      in if rest = [] then map_option of_nat (digits_val ip)
         else let fp = tl rest in
           if ip = [] then map_option (\<lambda>n. of_nat n / 10 ^ length fp) (digits_val fp)
           else if fp = [] then map_option of_nat (digits_val ip)
           else (case (digits_val ip, digits_val fp) of
                   (Some a, Some b) \<Rightarrow> Some (of_nat a + of_nat b / 10 ^ length fp)
                 | _ \<Rightarrow> None))"

definition dec_unsigned :: "string \<Rightarrow> rat option" where
  "dec_unsigned s =
     (let is_e = (\<lambda>c. c = CHR ''e'' \<or> c = CHR ''E'');
          m = takeWhile (\<lambda>c. \<not> is_e c) s; rest = dropWhile (\<lambda>c. \<not> is_e c) s
      in if rest = [] then dec_mantissa m
         else (case (dec_mantissa m, int_of_str (tl rest)) of
                 (Some v, Some e) \<Rightarrow>
                   if list_ex is_space (tl rest) then None
                   else Some (if 0 \<le> e then v * 10 ^ nat e else v / 10 ^ nat (- e))
               | _ \<Rightarrow> None))"

definition dec_of_str :: "string \<Rightarrow> rat option" where
  "dec_of_str s =
     (case str_strip s of
        [] \<Rightarrow> None
      | c # r \<Rightarrow>
          if c = CHR ''-'' then map_option uminus (dec_unsigned r)
          else if c = CHR ''+'' then dec_unsigned r
          else dec_unsigned (c # r))"

definition dec_ops :: "rat float_ops" where
  "dec_ops = \<lparr> float_of_str = dec_of_str, float_of_int = of_int, fmul = (*), fadd = (+) \<rparr>"

section \<open>The fetcher's line splitting (src/Mast.py, line 166)\<close>

text \<open>\<open>[x.strip() for x in text.split('\n')]\<close> on the decompressed text.\<close>

definition fetch_lines :: "string \<Rightarrow> string list" where
  "fetch_lines text = map str_strip (str_split (CHR 0x0A) text)"

section \<open>The decoder (src/Mast.py, lines 168 to 230)\<close>

datatype layout = LowDispersion | HighDispersion

text \<open>Line 168: \<open>if data[18][0] != 'w'\<close> selects the low dispersion branch.\<close>

definition classify :: "string list \<Rightarrow> error + layout" where
  "classify data =
     rbind (index data 18) (\<lambda>line.
     rbind (index line 0) (\<lambda>c.
     Inr (if c \<noteq> CHR ''w'' then LowDispersion else HighDispersion)))"

text \<open>Lines 183 to 187 and 203 to 207: \<open>' '.join(filter(None, line.split(' ')))\<close>.\<close>

definition normalize_line :: "string \<Rightarrow> string" where
  "normalize_line line = str_join '' '' (filter (\<lambda>e. e \<noteq> []) (str_split (CHR '' '') line))"

text \<open>
  Lines 188 and 208: the nested comprehension of \<open>float(x.split(' ')[i])\<close> for
  \<open>x in data\<close>, inside, and \<open>i in (0,1,2)\<close>, outside. It builds column 0 for every
  line, then column 1, then column 2; the first exception raised in that order ends
  the call.
\<close>

fun parse_column :: "'f float_ops \<Rightarrow> string list \<Rightarrow> nat \<Rightarrow> error + 'f list" where
  "parse_column F [] i = Inr []"
| "parse_column F (x # xs) i =
     rbind (index (str_split (CHR '' '') x) i) (\<lambda>t.
     rbind (to_float F t) (\<lambda>v.
     rbind (parse_column F xs i) (\<lambda>vs. Inr (v # vs))))"

definition data_cols :: "'f float_ops \<Rightarrow> string list \<Rightarrow> error + ('f list \<times> 'f list \<times> 'f list)" where
  "data_cols F data =
     rbind (parse_column F data 0) (\<lambda>c0.
     rbind (parse_column F data 1) (\<lambda>c1.
     rbind (parse_column F data 2) (\<lambda>c2. Inr (c0, c1, c2))))"

text \<open>Lines 180 to 191. The slice \<open>data[18:-1]\<close> is \<open>drop 18 (butlast data)\<close>.\<close>

definition decode_low :: "'f float_ops \<Rightarrow> string list \<Rightarrow> error + ('f list \<times> 'f list \<times> 'f list)" where
  "decode_low F data =
     (let body = drop 18 (butlast data);
          filtered_data = map normalize_line body
      in rbind (data_cols F filtered_data) (\<lambda>(wav, flux, flux_std_dev).
         Inr (wav, flux, flux_std_dev)))"

text \<open>Lines 213 to 215: the three parameters read from the last header line.\<close>

definition wave_start_of :: "'f float_ops \<Rightarrow> string \<Rightarrow> error + 'f" where
  "wave_start_of F wave_string =
     rbind (index (str_split (CHR ''+'') wave_string) 1) (\<lambda>a.
     rbind (index (str_split (CHR '','') a) 0) (\<lambda>b. to_float F b))"

definition wave_delta_of :: "'f float_ops \<Rightarrow> string \<Rightarrow> error + 'f" where
  "wave_delta_of F wave_string =
     rbind (index (str_split (CHR ''*'') wave_string) 0) (\<lambda>a.
     rbind (last_item (str_split (CHR ''='') a)) (\<lambda>b. to_float F (str_strip b)))"

definition k_max_of :: "string \<Rightarrow> error + int" where
  "k_max_of wave_string =
     rbind (last_item (str_split (CHR '','') wave_string)) (\<lambda>a.
     rbind (to_int (str_strip a)) (\<lambda>k. Inr (k + 1)))"

text \<open>Line 216: \<open>[wave_delta*i + wave_start for i in range(0,k_max)]\<close>.\<close>

definition wavelengths :: "'f float_ops \<Rightarrow> 'f \<Rightarrow> 'f \<Rightarrow> int \<Rightarrow> 'f list" where
  "wavelengths F wave_start wave_delta k_max =
     map (\<lambda>i. fadd F (fmul F wave_delta (float_of_int F (int i))) wave_start) [0..<nat k_max]"

text \<open>
  Lines 219 to 228, the loop that deletes the flagged samples in place. The state is
  the three lists, \<open>i\<close> and \<open>ln\<close> (here \<open>ln'\<close>). In the deleting branch the source runs \<open>i -= 1\<close> and
  then \<open>i += 1\<close>, which leaves \<open>i\<close> as it was.
\<close>

function compact_loop ::
  "'f \<Rightarrow> 'f list \<times> 'f list \<times> 'f list \<Rightarrow> nat \<Rightarrow> nat \<Rightarrow> error + ('f list \<times> 'f list \<times> 'f list)" where
  "compact_loop bad (wav, flux, flux_std_dev) i ln' =
     (if i < ln' then
        (case index flux i of
           Inl e \<Rightarrow> Inl e
         | Inr v \<Rightarrow>
             if v = bad then
               (case del_item flux i of
                  Inl e \<Rightarrow> Inl e
                | Inr flux' \<Rightarrow>
                    (case del_item flux_std_dev i of
                       Inl e \<Rightarrow> Inl e
                     | Inr flux_std_dev' \<Rightarrow>
                         (case del_item wav i of
                            Inl e \<Rightarrow> Inl e
                          | Inr wav' \<Rightarrow> compact_loop bad (wav', flux', flux_std_dev') i (ln' - 1))))
             else compact_loop bad (wav, flux, flux_std_dev) (i + 1) ln')
      else Inr (wav, flux, flux_std_dev))"
  by pat_completeness auto
termination
  by (relation "measure (\<lambda>(bad, s, i, n). n - i)") auto

text \<open>Lines 201 to 228.\<close>

definition decode_high :: "'f float_ops \<Rightarrow> string list \<Rightarrow> error + ('f list \<times> 'f list \<times> 'f list)" where
  "decode_high F data =
     (let header = take 19 data;
          body = drop 19 (butlast data);
          filtered_data = map normalize_line body
      in rbind (data_cols F filtered_data) (\<lambda>(flux, flux_std_dev, background).
         rbind (last_item header) (\<lambda>wave_string.
         rbind (wave_start_of F wave_string) (\<lambda>wave_start.
         rbind (wave_delta_of F wave_string) (\<lambda>wave_delta.
         rbind (k_max_of wave_string) (\<lambda>k_max.
         compact_loop (sentinel F)
           (wavelengths F wave_start wave_delta k_max, flux, flux_std_dev) 0 (length flux)))))))"

definition decode :: "'f float_ops \<Rightarrow> string list \<Rightarrow> error + ('f list \<times> 'f list \<times> 'f list)" where
  "decode F data =
     rbind (classify data) (\<lambda>l.
       case l of LowDispersion \<Rightarrow> decode_low F data | HighDispersion \<Rightarrow> decode_high F data)"

text \<open>The whole of lines 166 to 230, from the decompressed text.\<close>

definition GetIUEDataset :: "'f float_ops \<Rightarrow> string \<Rightarrow> error + ('f list \<times> 'f list \<times> 'f list)" where
  "GetIUEDataset F text = decode F (fetch_lines text)"

section \<open>The compaction as the specification words it\<close>

text \<open>
  The retained-index list \<open>{ i : flux[i] != -1 }\<close> and the projection of an array
  through it, written from the specification, to be compared with the loop above.
\<close>

definition retained_indices :: "'f \<Rightarrow> 'f list \<Rightarrow> nat list" where
  "retained_indices bad flux = filter (\<lambda>i. flux ! i \<noteq> bad) [0..<length flux]"

definition project :: "'a list \<Rightarrow> nat list \<Rightarrow> 'a list" where
  "project xs keep = map (\<lambda>i. xs ! i) keep"

definition compact_spec :: "'f \<Rightarrow> 'f list \<times> 'f list \<times> 'f list \<Rightarrow> 'f list \<times> 'f list \<times> 'f list" where
  "compact_spec bad s =
     (case s of (wav, flux, flux_std_dev) \<Rightarrow>
        let keep = retained_indices bad flux
        in (project wav keep, project flux keep, project flux_std_dev keep))"

text \<open>
  The elements of \<open>ws\<close> that stay when the positions flagged in \<open>fs\<close> are deleted;
  positions of \<open>ws\<close> beyond the end of \<open>fs\<close> stay. It describes what the loop leaves
  of each list, also when the wavelength list is longer or shorter than the flux list.
\<close>

fun drop_marked :: "'f \<Rightarrow> 'f list \<Rightarrow> 'a list \<Rightarrow> 'a list" where
  "drop_marked bad [] ws = ws"
| "drop_marked bad (f # fs) [] = []"
| "drop_marked bad (f # fs) (w # ws) =
     (if f = bad then drop_marked bad fs ws else w # drop_marked bad fs ws)"

text \<open>The pieces of a header line, as the specification names them.\<close>

definition text_before :: "char \<Rightarrow> string \<Rightarrow> string" where
  "text_before c s = takeWhile (\<lambda>x. x \<noteq> c) s"

definition text_after :: "char \<Rightarrow> string \<Rightarrow> string" where
  "text_after c s = tl (dropWhile (\<lambda>x. x \<noteq> c) s)"

definition text_after_last :: "char \<Rightarrow> string \<Rightarrow> string" where
  "text_after_last c s = rev (takeWhile (\<lambda>x. x \<noteq> c) (rev s))"

section \<open>Sample records\<close>

text \<open>
  Eighteen metadata lines, then the body and the trailing terminator. In the high
  dispersion samples line 18 is the header line with the wavelength parameters.
\<close>

definition hdr18 :: "string list" where
  "hdr18 = replicate 18 ''IUE''"

definition rec_low :: "string list" where
  "rec_low = hdr18 @ [''4500.0  -1  3.0'', ''end'']"

definition rec_low_bad_token :: "string list" where
  "rec_low_bad_token = hdr18 @ [''4500.0 abc 3.0'', ''end'']"

definition rec_high :: "string list" where
  "rec_high = hdr18 @ [''w=+4000.0,d=2.5*k,1'', ''1.0 0.1 0'', ''-1 0.2 0'', ''end'']"

definition rec_high_long :: "string list" where
  "rec_high_long = hdr18 @ [''w=+4000.0,d=2.5*k,2'', ''1.0 0.1 0'', ''-1 0.2 0'', ''end'']"

definition rec_high_all_bad :: "string list" where
  "rec_high_all_bad = hdr18 @ [''w=+4000.0,d=2.5*k,0'', ''-1 0.2 0'', ''end'']"

definition rec_high_all_bad_long :: "string list" where
  "rec_high_all_bad_long = hdr18 @ [''w=+4000.0,d=2.5*k,1'', ''-1 0.2 0'', ''end'']"

definition rec_empty_marker :: "string list" where
  "rec_empty_marker = hdr18 @ ['''', ''4500.0 1.0 3.0'', ''end'']"

definition rec_high_three :: "string list" where
  "rec_high_three =
     hdr18 @ [''w=+4000.0,d=2.5*k,2'', ''1.0 0.1 0'', ''-1 0.2 0'', ''1.0 0.1 0'', ''end'']"

definition rec_high_negative :: "string list" where
  "rec_high_negative = hdr18 @ [''w=+4000.0,d=2.5*k,-5'', ''end'']"

section \<open>Basic properties of the built-ins\<close>

declare compact_loop.simps [simp del]

lemma rbind_Inl [simp]: "rbind (Inl e) f = Inl e"
  by (simp add: rbind_def)

lemma rbind_Inr [simp]: "rbind (Inr x) f = f x"
  by (simp add: rbind_def)

lemma rbind_eq_Inr: "rbind m f = Inr y \<longleftrightarrow> (\<exists>x. m = Inr x \<and> f x = Inr y)"
  by (cases m) auto

lemma rbind_eq_Inl: "rbind m f = Inl e \<longleftrightarrow> m = Inl e \<or> (\<exists>x. m = Inr x \<and> f x = Inl e)"
  by (cases m) auto

subsection \<open>split, join, strip\<close>

lemma str_split_not_Nil [simp]: "str_split c s \<noteq> []"
  by (induction s) (auto split: list.splits)

lemma str_split_Cons:
  "str_split c (x # xs) =
     (if x = c then [] # str_split c xs else (x # hd (str_split c xs)) # tl (str_split c xs))"
  using str_split_not_Nil[of c xs] by (cases "str_split c xs") auto

declare str_split.simps(2) [simp del]

lemma length_str_split: "length (str_split c s) = Suc (length (filter (\<lambda>x. x = c) s))"
  by (induction s) (auto simp: str_split_Cons)

lemma hd_str_split: "hd (str_split c s) = takeWhile (\<lambda>x. x \<noteq> c) s"
  by (induction s) (auto simp: str_split_Cons)

lemma tl_str_split:
  "c \<in> set s \<Longrightarrow> tl (str_split c s) = str_split c (tl (dropWhile (\<lambda>x. x \<noteq> c) s))"
  by (induction s) (auto simp: str_split_Cons)

lemma str_split_no_sep: "c \<notin> set s \<Longrightarrow> str_split c s = [s]"
  by (induction s) (auto simp: str_split_Cons)

lemma str_split_append_sep:
  "c \<notin> set a \<Longrightarrow> str_split c (a @ c # b) = a # str_split c b"
  by (induction a) (auto simp: str_split_Cons)

lemma tl_str_split_not_Nil: "c \<in> set s \<Longrightarrow> tl (str_split c s) \<noteq> []"
  by (induction s) (auto simp: str_split_Cons)

lemma last_str_split: "last (str_split c s) = rev (takeWhile (\<lambda>x. x \<noteq> c) (rev s))"
proof (induction s)
  case Nil
  then show ?case by simp
next
  case (Cons x s)
  show ?case
  proof (cases "c \<in> set s")
    case True
    then have "last (str_split c (x # s)) = last (str_split c s)"
      using tl_str_split_not_Nil[OF True] by (cases "str_split c s") (auto simp: str_split_Cons)
    moreover from True have "takeWhile (\<lambda>x. x \<noteq> c) (rev s @ [x]) = takeWhile (\<lambda>x. x \<noteq> c) (rev s)"
      by (simp add: takeWhile_append1)
    ultimately show ?thesis using Cons by simp
  next
    case False
    then have "takeWhile (\<lambda>x. x \<noteq> c) (rev s @ [x]) = rev s @ takeWhile (\<lambda>x. x \<noteq> c) [x]"
      by (intro takeWhile_append2) auto
    with False show ?thesis
      by (auto simp: str_split_no_sep str_split_Cons)
  qed
qed

lemma str_split_parts_no_sep: "p \<in> set (str_split c s) \<Longrightarrow> c \<notin> set p"
proof (induction s arbitrary: p)
  case Nil
  then show ?case by simp
next
  case (Cons x s)
  then show ?case
    by (cases "str_split c s") (auto simp: str_split_Cons split: if_splits)
qed

lemma str_join_split: "str_join [c] (str_split c s) = s"
proof (induction s)
  case Nil
  then show ?case by simp
next
  case (Cons x s)
  then show ?case
  proof (cases "str_split c s")
    case Nil
    then show ?thesis by simp
  next
    case (Cons p ps)
    with Cons.IH show ?thesis by (cases ps) (auto simp: str_split_Cons)
  qed
qed

section \<open>The compaction loop\<close>

lemma drop_marked_Nil2 [simp]: "drop_marked bad fs [] = []"
  by (cases fs) auto

lemma filter_upt_Suc:
  "filter P [0..<Suc n] = (if P 0 then [0] else []) @ map Suc (filter (\<lambda>i. P (Suc i)) [0..<n])"
proof -
  have "[0..<Suc n] = 0 # map Suc [0..<n]"
    by (simp add: upt_conv_Cons map_Suc_upt del: upt_Suc)
  then show ?thesis
    by (simp add: filter_map comp_def del: upt_Suc)
qed

lemma drop_marked_project:
  "drop_marked bad fs xs =
     project xs (filter (\<lambda>i. \<not> (i < length fs \<and> fs ! i = bad)) [0..<length xs])"
proof (induction bad fs xs rule: drop_marked.induct)
  case (1 bad ws)
  then show ?case by (simp add: project_def map_nth)
next
  case (2 bad f fs)
  then show ?case by (simp add: project_def)
next
  case (3 bad f fs w ws)
  then show ?case
    by (simp add: project_def filter_upt_Suc comp_def del: upt_Suc)
qed

lemma drop_marked_same_length:
  "length xs = length fs \<Longrightarrow> drop_marked bad fs xs = project xs (retained_indices bad fs)"
proof -
  assume len: "length xs = length fs"
  have "filter (\<lambda>i. \<not> (i < length fs \<and> fs ! i = bad)) [0..<length xs]
      = filter (\<lambda>i. fs ! i \<noteq> bad) [0..<length fs]"
    using len by (intro filter_cong) auto
  then show ?thesis
    by (simp add: drop_marked_project retained_indices_def)
qed

lemma drop_marked_self: "drop_marked bad fs fs = filter (\<lambda>x. x \<noteq> bad) fs"
  by (induction fs) auto

lemma length_drop_marked:
  "bad \<notin> set (drop (length ws) fs) \<Longrightarrow>
   length (drop_marked bad fs ws) + length (filter (\<lambda>x. x = bad) fs) = length ws"
  by (induction bad fs ws rule: drop_marked.induct) (auto simp: filter_empty_conv)

lemma length_drop_marked_same:
  "length xs = length fs \<Longrightarrow> length (drop_marked bad fs xs) = length (filter (\<lambda>x. x \<noteq> bad) fs)"
  by (induction bad fs xs rule: drop_marked.induct) auto

lemma compact_loop_general:
  assumes "length flux = n" and "length err = n" and "i \<le> n"
  shows "compact_loop bad (wav, flux, err) i n =
     (if bad \<in> set (drop (max i (length wav)) flux) then Inl IndexError
      else Inr (take i wav @ drop_marked bad (drop i flux) (drop i wav),
                take i flux @ drop_marked bad (drop i flux) (drop i flux),
                take i err @ drop_marked bad (drop i flux) (drop i err)))"
  using assms
proof (induction bad "(wav, flux, err)" i n arbitrary: wav flux err rule: compact_loop.induct)
  case (1 bad wav flux err i n)
  show ?case
  proof (cases "i < n")
    case False
    with "1.prems" show ?thesis
      by (subst compact_loop.simps) simp
  next
    case True
    note lt = True
    have dflux: "drop i flux = flux ! i # drop (Suc i) flux"
      using lt "1.prems" by (simp add: Cons_nth_drop_Suc)
    have derr: "drop i err = err ! i # drop (Suc i) err"
      using lt "1.prems" by (simp add: Cons_nth_drop_Suc)
    show ?thesis
    proof (cases "flux ! i = bad")
      case False
      have IH: "compact_loop bad (wav, flux, err) (i + 1) n =
         (if bad \<in> set (drop (max (i + 1) (length wav)) flux) then Inl IndexError
          else Inr (take (i + 1) wav @ drop_marked bad (drop (i + 1) flux) (drop (i + 1) wav),
                take (i + 1) flux @ drop_marked bad (drop (i + 1) flux) (drop (i + 1) flux),
                take (i + 1) err @ drop_marked bad (drop (i + 1) flux) (drop (i + 1) err)))"
        using "1.hyps"(2)[OF lt _ False] lt "1.prems" by (simp add: index_def)
      have step: "compact_loop bad (wav, flux, err) i n = compact_loop bad (wav, flux, err) (i + 1) n"
        using lt False "1.prems" by (subst compact_loop.simps) (simp add: index_def)
      have cond: "bad \<in> set (drop (max i (length wav)) flux) \<longleftrightarrow>
                  bad \<in> set (drop (max (i + 1) (length wav)) flux)"
      proof (cases "i < length wav")
        case True
        then show ?thesis by (simp add: max_def)
      next
        case False
        then have "max i (length wav) = i" "max (i + 1) (length wav) = Suc i" by auto
        with dflux \<open>flux ! i \<noteq> bad\<close> show ?thesis by auto
      qed
      show ?thesis
      proof (cases "i < length wav")
        case True
        then have "drop i wav = wav ! i # drop (Suc i) wav"
          by (simp add: Cons_nth_drop_Suc)
        with step IH cond dflux derr False lt "1.prems" True show ?thesis
          by (simp add: take_Suc_conv_app_nth)
      next
        case False
        with step IH cond dflux derr \<open>flux ! i \<noteq> bad\<close> lt "1.prems" show ?thesis
          by (simp add: take_Suc_conv_app_nth)
      qed
    next
      case True
      note bad = True
      show ?thesis
      proof (cases "i < length wav")
        case False
        then have "max i (length wav) = i" by simp
        with dflux bad have c: "bad \<in> set (drop (max i (length wav)) flux)" by simp
        have "compact_loop bad (wav, flux, err) i n = Inl IndexError"
          using lt bad False "1.prems"
          by (subst compact_loop.simps) (simp add: index_def del_item_def)
        with c show ?thesis by simp
      next
        case True
        let ?w = "take i wav @ drop (Suc i) wav"
        let ?f = "take i flux @ drop (Suc i) flux"
        let ?e = "take i err @ drop (Suc i) err"
        have step: "compact_loop bad (wav, flux, err) i n = compact_loop bad (?w, ?f, ?e) i (n - 1)"
          using lt bad True "1.prems"
          by (subst compact_loop.simps) (simp add: index_def del_item_def)
        have IH: "compact_loop bad (?w, ?f, ?e) i (n - 1) =
           (if bad \<in> set (drop (max i (length ?w)) ?f) then Inl IndexError
            else Inr (take i ?w @ drop_marked bad (drop i ?f) (drop i ?w),
                take i ?f @ drop_marked bad (drop i ?f) (drop i ?f),
                take i ?e @ drop_marked bad (drop i ?f) (drop i ?e)))"
          using lt "1.prems" True
          by (intro "1.hyps"(1)[of "flux ! i" ?f ?e ?w])
             (auto simp: index_def del_item_def bad)
        have lw: "length ?w = length wav - 1" using True by simp
        have m: "max i (length wav - 1) = length wav - 1" "max i (length wav) = length wav"
          using True by auto
        have "Suc (length wav - Suc 0) = length wav"
          using True by simp
        then have "drop (length wav - 1) ?f = drop (length wav) flux"
          using True lt "1.prems" by (simp add: min_def)
        then have cond: "bad \<in> set (drop (max i (length ?w)) ?f) \<longleftrightarrow>
                   bad \<in> set (drop (max i (length wav)) flux)"
          by (simp only: lw m)
        have dw: "drop i wav = wav ! i # drop (Suc i) wav"
          using True by (simp add: Cons_nth_drop_Suc)
        have t: "take i ?w = take i wav" "take i ?f = take i flux" "take i ?e = take i err"
                "drop i ?w = drop (Suc i) wav" "drop i ?f = drop (Suc i) flux"
                "drop i ?e = drop (Suc i) err"
          using True lt "1.prems" by (simp_all add: min_def)
        show ?thesis
          unfolding step IH cond t using dflux derr dw bad by simp
      qed
    qed
  qed
qed

lemma compact_loop_0:
  assumes "length err = length flux"
  shows "compact_loop bad (wav, flux, err) 0 (length flux) =
     (if bad \<in> set (drop (length wav) flux) then Inl IndexError
      else Inr (drop_marked bad flux wav, filter (\<lambda>x. x \<noteq> bad) flux, drop_marked bad flux err))"
  using compact_loop_general[of flux "length flux" err 0 bad wav] assms
  by (simp add: drop_marked_self)

section \<open>Parsing of lines, columns and the header\<close>

subsection \<open>strip\<close>

lemma str_strip_decomp:
  "\<exists>pre suf. s = pre @ str_strip s @ suf \<and> list_all is_space pre \<and> list_all is_space suf \<and>
     (str_strip s \<noteq> [] \<longrightarrow> \<not> is_space (hd (str_strip s)) \<and> \<not> is_space (last (str_strip s)))"
proof -
  define t where "t = dropWhile is_space s"
  define pre where "pre = takeWhile is_space s"
  define suf where "suf = rev (takeWhile is_space (rev t))"
  have s: "s = pre @ t" by (simp add: pre_def t_def)
  have st: "str_strip s = rev (dropWhile is_space (rev t))" by (simp add: str_strip_def t_def)
  have "t = rev (takeWhile is_space (rev t) @ dropWhile is_space (rev t))"
    by (simp only: takeWhile_dropWhile_id rev_rev_ident)
  also have "\<dots> = rev (dropWhile is_space (rev t)) @ rev (takeWhile is_space (rev t))"
    by (simp only: rev_append)
  finally have t: "t = str_strip s @ suf" by (simp only: st suf_def)
  have p1: "list_all is_space pre"
    by (auto simp: pre_def list_all_iff dest: set_takeWhileD)
  have p2: "list_all is_space suf"
    by (auto simp: suf_def list_all_iff dest: set_takeWhileD)
  have "\<not> is_space (hd (str_strip s)) \<and> \<not> is_space (last (str_strip s))" if ne: "str_strip s \<noteq> []"
  proof
    from ne t have "t \<noteq> []" "hd (str_strip s) = hd t" by auto
    then show "\<not> is_space (hd (str_strip s))"
      unfolding t_def using hd_dropWhile by metis
    from ne have "dropWhile is_space (rev t) \<noteq> []" by (simp add: st)
    then have "\<not> is_space (hd (dropWhile is_space (rev t)))" by (rule hd_dropWhile)
    with ne show "\<not> is_space (last (str_strip s))" by (simp add: st last_rev)
  qed
  with s t p1 p2 show ?thesis by auto
qed

subsection \<open>tokens\<close>

lemma str_split_join:
  "ts \<noteq> [] \<Longrightarrow> \<forall>t\<in>set ts. c \<notin> set t \<Longrightarrow> str_split c (str_join [c] ts) = ts"
proof (induction "[c]" ts rule: str_join.induct)
  case 1
  then show ?case by simp
next
  case (2 x)
  then show ?case by (simp add: str_split_no_sep)
next
  case (3 x y ys)
  then show ?case by (simp add: str_split_append_sep)
qed

lemma tokens_no_space: "\<forall>t\<in>set (filter (\<lambda>e. e \<noteq> []) (str_split c x)). c \<notin> set t"
  by (auto dest: str_split_parts_no_sep)

lemma split_normalize_line:
  "filter (\<lambda>e. e \<noteq> []) (str_split (CHR '' '') x) \<noteq> [] \<Longrightarrow>
   str_split (CHR '' '') (normalize_line x) = filter (\<lambda>e. e \<noteq> []) (str_split (CHR '' '') x)"
  unfolding normalize_line_def
  using str_split_join[OF _ tokens_no_space, of "CHR '' ''" x] by simp

subsection \<open>columns\<close>

lemma parse_column_length: "parse_column F xs i = Inr vs \<Longrightarrow> length vs = length xs"
  by (induction xs arbitrary: vs) (auto simp: rbind_eq_Inr)

lemma to_float_Inl: "to_float F t = Inl e \<Longrightarrow> e = ValueError t \<and> float_of_str F t = None"
  by (auto simp: to_float_def split: option.splits)

lemma parse_column_error:
  "parse_column F xs i = Inl e \<Longrightarrow>
   e = IndexError \<or> (\<exists>t. e = ValueError t \<and> float_of_str F t = None)"
proof (induction xs)
  case Nil
  then show ?case by simp
next
  case (Cons x xs)
  then show ?case
    by (auto simp: rbind_eq_Inl index_def dest: to_float_Inl split: if_splits)
qed

lemma parse_column_bad_token:
  "x \<in> set xs \<Longrightarrow> index (str_split (CHR '' '') x) i = Inr t \<Longrightarrow> float_of_str F t = None \<Longrightarrow>
   \<exists>e. parse_column F xs i = Inl e"
proof (induction xs)
  case Nil
  then show ?case by simp
next
  case (Cons y ys)
  show ?case
  proof (cases "x = y")
    case True
    with Cons.prems show ?thesis by (simp add: to_float_def)
  next
    case False
    with Cons obtain e where e: "parse_column F ys i = Inl e" by auto
    show ?thesis
      by (cases "index (str_split (CHR '' '') y) i"; cases "to_float F (projr (index (str_split (CHR '' '') y) i))")
         (auto simp: e)
  qed
qed

lemma data_cols_Inr:
  "data_cols F xs = Inr (a, b, c) \<longleftrightarrow>
   parse_column F xs 0 = Inr a \<and> parse_column F xs 1 = Inr b \<and> parse_column F xs 2 = Inr c"
  by (auto simp: data_cols_def rbind_eq_Inr)

lemma data_cols_length:
  "data_cols F xs = Inr (a, b, c) \<Longrightarrow> length a = length xs \<and> length b = length xs \<and> length c = length xs"
  by (auto simp: data_cols_Inr dest: parse_column_length)

lemma data_cols_error:
  "data_cols F xs = Inl e \<Longrightarrow> e = IndexError \<or> (\<exists>t. e = ValueError t \<and> float_of_str F t = None)"
  by (auto simp: data_cols_def rbind_eq_Inl dest: parse_column_error)

lemma data_cols_bad_column:
  assumes "parse_column F xs i = Inl e" and "i < 3"
  shows "\<exists>e'. data_cols F xs = Inl e'"
proof (cases "data_cols F xs")
  case (Inl a)
  then show ?thesis by simp
next
  case (Inr r)
  obtain a b c where "r = (a, b, c)" by (cases r)
  with Inr have "parse_column F xs 0 = Inr a" "parse_column F xs 1 = Inr b" "parse_column F xs 2 = Inr c"
    by (simp_all add: data_cols_Inr)
  moreover from \<open>i < 3\<close> have "i = 0 \<or> i = 1 \<or> i = 2" by auto
  ultimately show ?thesis using assms(1) by auto
qed

subsection \<open>classification and the two branches\<close>

lemma classify_Inr:
  "classify data = Inr l \<longleftrightarrow>
   18 < length data \<and> data ! 18 \<noteq> [] \<and>
   l = (if hd (data ! 18) = CHR ''w'' then HighDispersion else LowDispersion)"
  by (cases "data ! 18") (auto simp: classify_def index_def)

lemma classify_Inl:
  "classify data = Inl e \<longleftrightarrow> e = IndexError \<and> (length data \<le> 18 \<or> data ! 18 = [])"
  by (cases "data ! 18") (auto simp: classify_def index_def)

lemma last_header: "18 < length data \<Longrightarrow> last_item (take 19 data) = Inr (data ! 18)"
proof -
  assume len: "18 < length data"
  then have l: "length (take 19 data) = 19" by simp
  then have ne: "take 19 data \<noteq> []" by auto
  have "last (take 19 data) = take 19 data ! (length (take 19 data) - 1)"
    using ne by (rule last_conv_nth)
  also have "\<dots> = data ! 18" unfolding l by simp
  finally show ?thesis using ne by (simp add: last_item_def)
qed

lemma decode_low_Inr:
  "decode_low F data = Inr (w, f, e) \<longleftrightarrow>
   data_cols F (map normalize_line (drop 18 (butlast data))) = Inr (w, f, e)"
  by (auto simp: decode_low_def rbind_eq_Inr)

lemma decode_high_unfold:
  "18 < length data \<Longrightarrow>
   decode_high F data =
     rbind (data_cols F (map normalize_line (drop 19 (butlast data)))) (\<lambda>(flux, flux_std_dev, background).
     rbind (wave_start_of F (data ! 18)) (\<lambda>wave_start.
     rbind (wave_delta_of F (data ! 18)) (\<lambda>wave_delta.
     rbind (k_max_of (data ! 18)) (\<lambda>k_max.
     compact_loop (sentinel F)
       (wavelengths F wave_start wave_delta k_max, flux, flux_std_dev) 0 (length flux)))))"
  by (simp add: decode_high_def last_header)

lemma decode_high_Inr:
  assumes "18 < length data" and "decode_high F data = Inr (w, f, e)"
  shows "\<exists>flux err bg start delta k.
     data_cols F (map normalize_line (drop 19 (butlast data))) = Inr (flux, err, bg) \<and>
     wave_start_of F (data ! 18) = Inr start \<and>
     wave_delta_of F (data ! 18) = Inr delta \<and>
     k_max_of (data ! 18) = Inr k \<and>
     sentinel F \<notin> set (drop (length (wavelengths F start delta k)) flux) \<and>
     w = drop_marked (sentinel F) flux (wavelengths F start delta k) \<and>
     f = filter (\<lambda>x. x \<noteq> sentinel F) flux \<and>
     e = drop_marked (sentinel F) flux err"
proof -
  from assms obtain flux err bg start delta k where
    dc: "data_cols F (map normalize_line (drop 19 (butlast data))) = Inr (flux, err, bg)" and
    ws: "wave_start_of F (data ! 18) = Inr start" and
    wd: "wave_delta_of F (data ! 18) = Inr delta" and
    km: "k_max_of (data ! 18) = Inr k" and
    cl: "compact_loop (sentinel F) (wavelengths F start delta k, flux, err) 0 (length flux) = Inr (w, f, e)"
    by (auto simp: decode_high_unfold rbind_eq_Inr)
  from dc have "length err = length flux"
    by (auto dest: data_cols_length)
  from cl compact_loop_0[OF this, of "sentinel F" "wavelengths F start delta k"]
  have "sentinel F \<notin> set (drop (length (wavelengths F start delta k)) flux)"
       "w = drop_marked (sentinel F) flux (wavelengths F start delta k)"
       "f = filter (\<lambda>x. x \<noteq> sentinel F) flux"
       "e = drop_marked (sentinel F) flux err"
    by (auto split: if_splits)
  with dc ws wd km show ?thesis by blast
qed

lemma decode_High:
  "classify data = Inr HighDispersion \<Longrightarrow> decode F data = decode_high F data"
  by (simp add: decode_def)

lemma decode_Low:
  "classify data = Inr LowDispersion \<Longrightarrow> decode F data = decode_low F data"
  by (simp add: decode_def)

lemma length_wavelengths [simp]: "length (wavelengths F s d k) = nat k"
  by (simp add: wavelengths_def)

lemma to_float_Inr: "to_float F t = Inr v \<longleftrightarrow> float_of_str F t = Some v"
  by (auto simp: to_float_def split: option.splits)

lemma to_int_Inr: "to_int t = Inr v \<longleftrightarrow> int_of_str t = Some v"
  by (auto simp: to_int_def split: option.splits)

lemma index_0_str_split: "index (str_split c s) 0 = Inr (text_before c s)"
  using str_split_not_Nil[of c s]
  by (cases "str_split c s") (auto simp: index_def text_before_def hd_str_split[symmetric] simp del: str_split_not_Nil)

lemma last_item_str_split: "last_item (str_split c s) = Inr (text_after_last c s)"
  by (simp add: last_item_def last_str_split text_after_last_def)

lemma index_1_str_split:
  "index (str_split c s) (Suc 0) = Inr a \<longleftrightarrow> c \<in> set s \<and> a = text_before c (text_after c s)"
proof (cases "c \<in> set s")
  case False
  then show ?thesis by (simp add: str_split_no_sep index_def)
next
  case True
  have ne: "tl (str_split c s) \<noteq> []" using True by (rule tl_str_split_not_Nil)
  then have "1 < length (str_split c s)"
    by (cases "str_split c s") auto
  moreover have "str_split c s ! 1 = hd (tl (str_split c s))"
    using ne by (cases "str_split c s"; cases "tl (str_split c s)") auto
  ultimately show ?thesis
    using True by (auto simp: index_def tl_str_split hd_str_split text_before_def text_after_def)
qed

lemma wave_start_of_Inr:
  "wave_start_of F ws = Inr start \<longleftrightarrow>
   CHR ''+'' \<in> set ws \<and>
   float_of_str F (text_before (CHR '','') (text_before (CHR ''+'') (text_after (CHR ''+'') ws))) = Some start"
  by (auto simp: wave_start_of_def rbind_eq_Inr index_1_str_split index_0_str_split to_float_Inr)

lemma wave_delta_of_Inr:
  "wave_delta_of F ws = Inr delta \<longleftrightarrow>
   float_of_str F (str_strip (text_after_last (CHR ''='') (text_before (CHR ''*'') ws))) = Some delta"
  by (auto simp: wave_delta_of_def rbind_eq_Inr index_0_str_split last_item_str_split to_float_Inr)

lemma k_max_of_Inr:
  "k_max_of ws = Inr k \<longleftrightarrow> int_of_str (str_strip (text_after_last (CHR '','') ws)) = Some (k - 1)"
  by (auto simp: k_max_of_def rbind_eq_Inr last_item_str_split to_int_Inr)

section \<open>Evaluation on the sample records\<close>

lemmas dec_defs = dec_ops_def dec_of_str_def str_strip_def is_space_def dec_unsigned_def
  dec_mantissa_def digits_val_def is_digit_def digit_val_def int_of_str_def

lemma dec_tokens:
  "float_of_str dec_ops ''4500.0'' = Some 4500"
  "float_of_str dec_ops ''4000.0'' = Some 4000"
  "float_of_str dec_ops ''-1'' = Some (- 1)"
  "float_of_str dec_ops ''3.0'' = Some 3"
  "float_of_str dec_ops ''1.0'' = Some 1"
  "float_of_str dec_ops ''0.1'' = Some (1 / 10)"
  "float_of_str dec_ops ''0.2'' = Some (1 / 5)"
  "float_of_str dec_ops ''2.5'' = Some (5 / 2)"
  "float_of_str dec_ops ''0'' = Some 0"
  "float_of_str dec_ops ''abc'' = None"
  by (simp_all add: dec_defs)

lemma int_tokens:
  "int_of_str ''0'' = Some 0" "int_of_str ''1'' = Some 1" "int_of_str ''2'' = Some 2"
  by (simp_all add: int_of_str_def str_strip_def is_space_def digits_val_def is_digit_def digit_val_def)

lemma sentinel_dec: "sentinel dec_ops = - 1"
  by (simp add: sentinel_def dec_ops_def)

lemma length_hdr18: "length hdr18 = 18"
  by (simp add: hdr18_def)

lemma classify_shape:
  "length hs = 18 \<Longrightarrow>
   classify (hs @ l # rest) =
     (case l of [] \<Rightarrow> Inl IndexError
      | c # r \<Rightarrow> Inr (if c \<noteq> CHR ''w'' then LowDispersion else HighDispersion))"
  by (cases l) (simp_all add: classify_def index_def nth_append)

lemma decode_low_shape:
  "length hs = 18 \<Longrightarrow> decode_low F (hs @ body @ [t]) = data_cols F (map normalize_line body)"
proof -
  assume "length hs = 18"
  moreover have "butlast (hs @ body @ [t]) = hs @ body"
    by (simp add: butlast_append)
  ultimately show ?thesis
    by (cases "data_cols F (map normalize_line body)") (auto simp: decode_low_def)
qed

lemma decode_high_shape:
  assumes "length hs = 18"
  shows "decode_high F (hs @ l # body @ [t]) =
     rbind (data_cols F (map normalize_line body)) (\<lambda>(flux, flux_std_dev, background).
     rbind (wave_start_of F l) (\<lambda>wave_start.
     rbind (wave_delta_of F l) (\<lambda>wave_delta.
     rbind (k_max_of l) (\<lambda>k_max.
     compact_loop (sentinel F)
       (wavelengths F wave_start wave_delta k_max, flux, flux_std_dev) 0 (length flux)))))"
proof -
  have "butlast (hs @ l # body @ [t]) = hs @ l # body"
    by (simp add: butlast_append)
  then have b: "drop 19 (butlast (hs @ l # body @ [t])) = body"
    using assms by simp
  have n: "(hs @ l # body @ [t]) ! 18 = l"
    using assms by (simp add: nth_append)
  have "18 < length (hs @ l # body @ [t])" using assms by simp
  from decode_high_unfold[OF this, of F] show ?thesis
    unfolding b n .
qed

lemma normalize_samples:
  "normalize_line ''4500.0  -1  3.0'' = ''4500.0 -1 3.0''"
  "normalize_line ''4500.0 abc 3.0'' = ''4500.0 abc 3.0''"
  "normalize_line ''1.0 0.1 0'' = ''1.0 0.1 0''"
  "normalize_line ''-1 0.2 0'' = ''-1 0.2 0''"
  by (simp_all add: normalize_line_def str_split.simps(2))

lemma data_cols_samples:
  "data_cols dec_ops [''4500.0 -1 3.0''] = Inr ([4500], [- 1], [3])"
  "data_cols dec_ops [''4500.0 abc 3.0''] = Inl (ValueError ''abc'')"
  "data_cols dec_ops [''1.0 0.1 0'', ''-1 0.2 0''] = Inr ([1, - 1], [1 / 10, 1 / 5], [0, 0])"
  "data_cols dec_ops [''-1 0.2 0''] = Inr ([- 1], [1 / 5], [0])"
  by (simp_all add: data_cols_def index_def to_float_def dec_tokens str_split.simps(2))

lemma header_samples:
  "wave_start_of dec_ops ''w=+4000.0,d=2.5*k,0'' = Inr 4000"
  "wave_start_of dec_ops ''w=+4000.0,d=2.5*k,1'' = Inr 4000"
  "wave_start_of dec_ops ''w=+4000.0,d=2.5*k,2'' = Inr 4000"
  "wave_delta_of dec_ops ''w=+4000.0,d=2.5*k,0'' = Inr (5 / 2)"
  "wave_delta_of dec_ops ''w=+4000.0,d=2.5*k,1'' = Inr (5 / 2)"
  "wave_delta_of dec_ops ''w=+4000.0,d=2.5*k,2'' = Inr (5 / 2)"
  "k_max_of ''w=+4000.0,d=2.5*k,0'' = Inr 1"
  "k_max_of ''w=+4000.0,d=2.5*k,1'' = Inr 2"
  "k_max_of ''w=+4000.0,d=2.5*k,2'' = Inr 3"
  by (simp_all add: wave_start_of_def wave_delta_of_def k_max_of_def index_def last_item_def
        to_float_def to_int_def str_strip_def is_space_def dec_tokens int_tokens str_split.simps(2))

lemma wavelengths_samples:
  "wavelengths dec_ops 4000 (5 / 2) 1 = [4000]"
  "wavelengths dec_ops 4000 (5 / 2) 2 = [4000, 8005 / 2]"
  "wavelengths dec_ops 4000 (5 / 2) 3 = [4000, 8005 / 2, 4005]"
  by (simp_all add: wavelengths_def dec_ops_def eval_nat_numeral)

lemma compact_sample_1:
  "compact_loop (- 1 :: rat) ([4000, 8005 / 2], [1, - 1], [1 / 10, 1 / 5]) 0 (Suc (Suc 0)) =
   Inr ([4000], [1], [1 / 10])"
  using compact_loop_0[of "[1 / 10, 1 / 5 :: rat]" "[1, - 1]" "- 1" "[4000, 8005 / 2]"]
  by simp

lemma compact_sample_2:
  "compact_loop (- 1 :: rat) ([4000, 8005 / 2, 4005], [1, - 1], [1 / 10, 1 / 5]) 0 (Suc (Suc 0)) =
   Inr ([4000, 4005], [1], [1 / 10])"
  using compact_loop_0[of "[1 / 10, 1 / 5 :: rat]" "[1, - 1]" "- 1" "[4000, 8005 / 2, 4005]"]
  by simp

lemma compact_sample_3:
  "compact_loop (- 1 :: rat) ([4000], [- 1], [1 / 5]) 0 (Suc 0) = Inr ([], [], [])"
  using compact_loop_0[of "[1 / 5 :: rat]" "[- 1]" "- 1" "[4000]"]
  by simp

lemma compact_sample_4:
  "compact_loop (- 1 :: rat) ([4000, 8005 / 2], [- 1], [1 / 5]) 0 (Suc 0) = Inr ([8005 / 2], [], [])"
  using compact_loop_0[of "[1 / 5 :: rat]" "[- 1]" "- 1" "[4000, 8005 / 2]"]
  by simp

lemmas compact_samples = compact_sample_1 compact_sample_2 compact_sample_3 compact_sample_4

lemma classify_samples:
  "classify rec_low = Inr LowDispersion"
  "classify rec_low_bad_token = Inr LowDispersion"
  "classify rec_high = Inr HighDispersion"
  "classify rec_high_long = Inr HighDispersion"
  "classify rec_high_all_bad = Inr HighDispersion"
  "classify rec_high_all_bad_long = Inr HighDispersion"
  "classify rec_empty_marker = Inl IndexError"
  by (simp_all add: rec_low_def rec_low_bad_token_def rec_high_def rec_high_long_def
        rec_high_all_bad_def rec_high_all_bad_long_def rec_empty_marker_def
        classify_shape[OF length_hdr18])

lemma decode_rec_low: "decode dec_ops rec_low = Inr ([4500], [- 1], [3])"
  using decode_low_shape[OF length_hdr18, of dec_ops "[''4500.0  -1  3.0'']" "''end''"]
  by (simp add: decode_Low classify_samples rec_low_def[symmetric] normalize_samples data_cols_samples)

lemma decode_rec_low_bad_token: "decode dec_ops rec_low_bad_token = Inl (ValueError ''abc'')"
  using decode_low_shape[OF length_hdr18, of dec_ops "[''4500.0 abc 3.0'']" "''end''"]
  by (simp add: decode_Low classify_samples rec_low_bad_token_def[symmetric] normalize_samples data_cols_samples)

lemma decode_rec_high: "decode dec_ops rec_high = Inr ([4000], [1], [1 / 10])"
  using decode_high_shape[OF length_hdr18, of dec_ops "''w=+4000.0,d=2.5*k,1''"
          "[''1.0 0.1 0'', ''-1 0.2 0'']" "''end''"]
  by (simp add: decode_High classify_samples rec_high_def[symmetric] normalize_samples
        data_cols_samples header_samples wavelengths_samples sentinel_dec compact_samples)

lemma decode_rec_high_long: "decode dec_ops rec_high_long = Inr ([4000, 4005], [1], [1 / 10])"
  using decode_high_shape[OF length_hdr18, of dec_ops "''w=+4000.0,d=2.5*k,2''"
          "[''1.0 0.1 0'', ''-1 0.2 0'']" "''end''"]
  by (simp add: decode_High classify_samples rec_high_long_def[symmetric] normalize_samples
        data_cols_samples header_samples wavelengths_samples sentinel_dec compact_samples)

lemma decode_rec_high_all_bad_long: "decode dec_ops rec_high_all_bad_long = Inr ([8005 / 2], [], [])"
  using decode_high_shape[OF length_hdr18, of dec_ops "''w=+4000.0,d=2.5*k,1''"
          "[''-1 0.2 0'']" "''end''"]
  by (simp add: decode_High classify_samples rec_high_all_bad_long_def[symmetric] normalize_samples
        data_cols_samples header_samples wavelengths_samples sentinel_dec compact_samples)

lemma rec_lengths:
  "length rec_low = 20" "length rec_high = 22" "length rec_high_all_bad = 21"
  "length rec_empty_marker = 21" "length rec_low_bad_token = 20"
  by (simp_all add: rec_low_def rec_high_def rec_high_all_bad_def rec_empty_marker_def
        rec_low_bad_token_def length_hdr18)

lemma rec_line_18:
  "rec_low ! 18 = ''4500.0  -1  3.0''"
  "rec_high ! 18 = ''w=+4000.0,d=2.5*k,1''"
  "rec_high_all_bad ! 18 = ''w=+4000.0,d=2.5*k,0''"
  "rec_high_all_bad_long ! 18 = ''w=+4000.0,d=2.5*k,1''"
  "rec_empty_marker ! 18 = []"
  by (simp_all add: rec_low_def rec_high_def rec_high_all_bad_def rec_high_all_bad_long_def
        rec_empty_marker_def nth_append length_hdr18)

lemma rec_bodies:
  "drop 18 (butlast rec_low) = [''4500.0  -1  3.0'']"
  "drop 18 (butlast rec_low_bad_token) = [''4500.0 abc 3.0'']"
  "drop 19 (butlast rec_high) = [''1.0 0.1 0'', ''-1 0.2 0'']"
  "drop 19 (butlast rec_high_all_bad) = [''-1 0.2 0'']"
  by (simp_all add: rec_low_def rec_low_bad_token_def rec_high_def rec_high_all_bad_def
        butlast_append length_hdr18)

lemma int_token_negative: "int_of_str ''-5'' = Some (- 5)"
  by (simp add: int_of_str_def str_strip_def is_space_def digits_val_def is_digit_def digit_val_def)

lemma header_negative:
  "wave_start_of dec_ops ''w=+4000.0,d=2.5*k,-5'' = Inr 4000"
  "wave_delta_of dec_ops ''w=+4000.0,d=2.5*k,-5'' = Inr (5 / 2)"
  "k_max_of ''w=+4000.0,d=2.5*k,-5'' = Inr (- 4)"
  by (simp_all add: wave_start_of_def wave_delta_of_def k_max_of_def index_def last_item_def
        to_float_def to_int_def str_strip_def is_space_def dec_tokens int_token_negative
        str_split.simps(2))

lemma data_cols_more:
  "data_cols dec_ops [] = Inr ([], [], [])"
  "data_cols dec_ops [''1.0 0.1 0'', ''-1 0.2 0'', ''1.0 0.1 0''] =
     Inr ([1, - 1, 1], [1 / 10, 1 / 5, 1 / 10], [0, 0, 0])"
  by (simp_all add: data_cols_def index_def to_float_def dec_tokens str_split.simps(2))

lemma wavelengths_negative: "wavelengths dec_ops 4000 (5 / 2) (- 4) = []"
  by (simp add: wavelengths_def)

lemma compact_sample_5:
  "compact_loop (- 1 :: rat) ([4000, 8005 / 2, 4005], [1, - 1, 1], [1 / 10, 1 / 5, 1 / 10]) 0
     (Suc (Suc (Suc 0))) = Inr ([4000, 4005], [1, 1], [1 / 10, 1 / 10])"
  using compact_loop_0[of "[1 / 10, 1 / 5, 1 / 10 :: rat]" "[1, - 1, 1]" "- 1" "[4000, 8005 / 2, 4005]"]
  by simp

lemma compact_sample_6:
  "compact_loop (- 1 :: rat) ([], [], []) 0 0 = Inr ([], [], [])"
  using compact_loop_0[of "[] :: rat list" "[]" "- 1" "[]"]
  by simp

lemma classify_more:
  "classify rec_high_three = Inr HighDispersion"
  "classify rec_high_negative = Inr HighDispersion"
  by (simp_all add: rec_high_three_def rec_high_negative_def classify_shape[OF length_hdr18])

lemma decode_rec_high_three:
  "decode dec_ops rec_high_three = Inr ([4000, 4005], [1, 1], [1 / 10, 1 / 10])"
  using decode_high_shape[OF length_hdr18, of dec_ops "''w=+4000.0,d=2.5*k,2''"
          "[''1.0 0.1 0'', ''-1 0.2 0'', ''1.0 0.1 0'']" "''end''"]
  by (simp add: decode_High classify_more rec_high_three_def[symmetric] normalize_samples
        data_cols_more header_samples wavelengths_samples sentinel_dec compact_sample_5)

lemma decode_rec_high_negative: "decode dec_ops rec_high_negative = Inr ([], [], [])"
  using decode_high_shape[OF length_hdr18, of dec_ops "''w=+4000.0,d=2.5*k,-5''" "[]" "''end''"]
  by (simp add: decode_High classify_more rec_high_negative_def[symmetric]
        data_cols_more header_negative wavelengths_negative sentinel_dec compact_sample_6)

lemma rec_more:
  "rec_high_three ! 18 = ''w=+4000.0,d=2.5*k,2''"
  "drop 19 (butlast rec_high_three) = [''1.0 0.1 0'', ''-1 0.2 0'', ''1.0 0.1 0'']"
  "rec_high_negative ! 18 = ''w=+4000.0,d=2.5*k,-5''"
  "drop 19 (butlast rec_high_negative) = []"
  by (simp_all add: rec_high_three_def rec_high_negative_def nth_append butlast_append length_hdr18)

section \<open>The claims\<close>

subsection \<open>C1: sentinel flux values in the result\<close>

text \<open>
  Claim C1, as the code has it. For every record that \<open>decode\<close> accepts in the
  HighDispersion branch, the returned flux sequence contains no value equal to the
  sentinel \<open>-1\<close>. The LowDispersion branch (lines 180 to 191) has no removal pass.
\<close>

theorem high_flux_without_sentinel:
  assumes "classify data = Inr HighDispersion" and "decode F data = Inr (w, f, e)"
  shows "sentinel F \<notin> set f"
proof -
  from assms(1) have len: "18 < length data" by (simp add: classify_Inr)
  from assms have "decode_high F data = Inr (w, f, e)" by (simp add: decode_High)
  from decode_high_Inr[OF len this] show ?thesis by auto
qed

text \<open>
  C1, an instance: the high dispersion sample record, whose second sample is flagged,
  decodes to one sample and its flux is not the sentinel.
\<close>

theorem high_flux_without_sentinel_witness:
  "classify rec_high = Inr HighDispersion \<and>
   decode dec_ops rec_high = Inr ([4000], [1], [1 / 10]) \<and>
   sentinel dec_ops \<notin> set [1 :: rat]"
  using high_flux_without_sentinel[OF classify_samples(3) decode_rec_high]
  by (simp add: classify_samples decode_rec_high)

text \<open>
  C1 as stated fails in the LowDispersion branch: a low dispersion record whose only
  body line is \<open>4500.0  -1  3.0\<close> is accepted and its flux \<open>-1\<close> is returned.
\<close>

theorem low_flux_keeps_sentinel:
  "classify rec_low = Inr LowDispersion \<and>
   decode dec_ops rec_low = Inr ([4500], [sentinel dec_ops], [3])"
  by (simp add: classify_samples decode_rec_low sentinel_dec)

subsection \<open>C2: lengths of the three sequences\<close>

text \<open>
  Claim C2, as the code has it. For every record that \<open>decode\<close> accepts, flux and
  uncertainty have equal length; in the LowDispersion branch the wavelength sequence
  has that length too; in the HighDispersion branch the wavelength sequence starts
  with \<open>max(k_max, 0)\<close> entries, the length of \<open>range(0, k_max)\<close>, and
  \<open>len(wavelength) + (number of body lines) = len(flux) + max(k_max, 0)\<close>, so the three
  lengths agree exactly when \<open>max(k_max, 0)\<close> is the number of body lines. Here
  \<open>nat k\<close> is \<open>max(k, 0)\<close>.
\<close>

theorem decode_lengths:
  assumes "decode F data = Inr (w, f, e)"
  shows "length f = length e \<and>
    (classify data = Inr LowDispersion \<longrightarrow> length w = length f) \<and>
    (classify data = Inr HighDispersion \<longrightarrow>
       (\<exists>k. k_max_of (data ! 18) = Inr k \<and>
            length w + length (drop 19 (butlast data)) = length f + nat k \<and>
            (length w = length f \<longleftrightarrow> nat k = length (drop 19 (butlast data)))))"
proof -
  from assms obtain l where cl: "classify data = Inr l"
    by (auto simp: decode_def rbind_eq_Inr)
  then have len: "18 < length data" by (simp add: classify_Inr)
  show ?thesis
  proof (cases l)
    case LowDispersion
    with cl assms have "data_cols F (map normalize_line (drop 18 (butlast data))) = Inr (w, f, e)"
      by (simp add: decode_Low decode_low_Inr)
    from data_cols_length[OF this] cl LowDispersion show ?thesis by simp
  next
    case HighDispersion
    with cl assms have "decode_high F data = Inr (w, f, e)" by (simp add: decode_High)
    from decode_high_Inr[OF len this] obtain flux err bg start delta k where
      dc: "data_cols F (map normalize_line (drop 19 (butlast data))) = Inr (flux, err, bg)" and
      km: "k_max_of (data ! 18) = Inr k" and
      ok: "sentinel F \<notin> set (drop (length (wavelengths F start delta k)) flux)" and
      w: "w = drop_marked (sentinel F) flux (wavelengths F start delta k)" and
      f: "f = filter (\<lambda>x. x \<noteq> sentinel F) flux" and
      e: "e = drop_marked (sentinel F) flux err"
      by blast
    from dc have lf: "length flux = length (drop 19 (butlast data))" and le: "length err = length flux"
      by (auto dest: data_cols_length)
    have fe: "length f = length e"
      unfolding f e by (simp add: length_drop_marked_same[OF le])
    have "length w + length (filter (\<lambda>x. x = sentinel F) flux) = nat k"
      unfolding w using length_drop_marked[OF ok] by simp
    moreover have "length f + length (filter (\<lambda>x. x = sentinel F) flux) = length flux"
      unfolding f using sum_length_filter_compl[of "\<lambda>x. x \<noteq> sentinel F" flux] by simp
    ultimately have eq: "length w + length (drop 19 (butlast data)) = length f + nat k"
      using lf by simp
    then have "length w = length f \<longleftrightarrow> nat k = length (drop 19 (butlast data))"
      by arith
    with eq fe km cl HighDispersion show ?thesis by simp
  qed
qed

text \<open>
  C2, three instances: the low dispersion sample record, the high dispersion sample
  record whose header gives \<open>k_max = 2\<close> for its two body lines, and a high dispersion
  record with no body line whose header gives \<open>k_max = -4\<close>: the three sequences are
  empty, of equal length, and \<open>max(k_max, 0) = 0\<close> is the number of body lines.
\<close>

theorem decode_lengths_witness:
  "decode dec_ops rec_low = Inr ([4500], [- 1], [3]) \<and>
   classify rec_low = Inr LowDispersion \<and>
   length [4500 :: rat] = length [- 1 :: rat] \<and> length [- 1 :: rat] = length [3 :: rat] \<and>
   decode dec_ops rec_high = Inr ([4000], [1], [1 / 10]) \<and>
   classify rec_high = Inr HighDispersion \<and>
   k_max_of (rec_high ! 18) = Inr 2 \<and>
   length [4000 :: rat] + length (drop 19 (butlast rec_high)) = length [1 :: rat] + nat 2 \<and>
   (length [4000 :: rat] = length [1 :: rat] \<longleftrightarrow> nat 2 = length (drop 19 (butlast rec_high))) \<and>
   decode dec_ops rec_high_negative = Inr ([], [], []) \<and>
   classify rec_high_negative = Inr HighDispersion \<and>
   k_max_of (rec_high_negative ! 18) = Inr (- 4) \<and>
   length ([] :: rat list) + length (drop 19 (butlast rec_high_negative)) =
     length ([] :: rat list) + nat (- 4) \<and>
   (length ([] :: rat list) = length ([] :: rat list) \<longleftrightarrow>
      nat (- 4) = length (drop 19 (butlast rec_high_negative)))"
  using decode_lengths[OF decode_rec_low] decode_lengths[OF decode_rec_high]
    decode_lengths[OF decode_rec_high_negative]
  by (simp add: classify_samples classify_more decode_rec_low decode_rec_high
        decode_rec_high_negative rec_line_18 rec_more header_samples header_negative)

text \<open>
  C2 as stated fails in the HighDispersion branch: with a header that gives
  \<open>k_max = 3\<close> and two body lines, one of them flagged, \<open>decode\<close> returns two
  wavelengths for one flux value.
\<close>

theorem high_lengths_differ:
  "classify rec_high_long = Inr HighDispersion \<and>
   decode dec_ops rec_high_long = Inr ([4000, 4005], [1], [1 / 10]) \<and>
   length [4000, 4005 :: rat] \<noteq> length [1 :: rat]"
  by (simp add: classify_samples decode_rec_high_long)

subsection \<open>C3: the reconstructed wavelengths\<close>

text \<open>
  Claim C3. For every record that \<open>decode\<close> accepts in the HighDispersion branch,
  the last header line (line 18) contains a \<open>+\<close>; the start wavelength is the
  conversion of the text after the first \<open>+\<close> up to the next \<open>+\<close> or \<open>,\<close>; the delta
  is the conversion of the stripped text after the last \<open>=\<close> of the part before the
  first \<open>*\<close>; \<open>k_max\<close> is one more than the integer read from the stripped text after
  the last \<open>,\<close>; and the returned wavelength sequence lists \<open>delta * i + start\<close>, in
  increasing order of \<open>i\<close>, for the indices \<open>i\<close> below \<open>k_max\<close> whose flux is not the
  sentinel. The arithmetic is that of the float operations.
\<close>

theorem high_wavelength_progression:
  assumes "classify data = Inr HighDispersion" and "decode F data = Inr (w, f, e)"
  shows "\<exists>start delta k flux.
     CHR ''+'' \<in> set (data ! 18) \<and>
     float_of_str F (text_before (CHR '','')
        (text_before (CHR ''+'') (text_after (CHR ''+'') (data ! 18)))) = Some start \<and>
     float_of_str F (str_strip (text_after_last (CHR ''='')
        (text_before (CHR ''*'') (data ! 18)))) = Some delta \<and>
     int_of_str (str_strip (text_after_last (CHR '','') (data ! 18))) = Some (k - 1) \<and>
     parse_column F (map normalize_line (drop 19 (butlast data))) 0 = Inr flux \<and>
     w = map (\<lambda>i. fadd F (fmul F delta (float_of_int F (int i))) start)
           (filter (\<lambda>i. \<not> (i < length flux \<and> flux ! i = sentinel F)) [0..<nat k])"
proof -
  from assms(1) have len: "18 < length data" by (simp add: classify_Inr)
  from assms have "decode_high F data = Inr (w, f, e)" by (simp add: decode_High)
  from decode_high_Inr[OF len this] obtain flux err bg start delta k where
    dc: "data_cols F (map normalize_line (drop 19 (butlast data))) = Inr (flux, err, bg)" and
    ws: "wave_start_of F (data ! 18) = Inr start" and
    wd: "wave_delta_of F (data ! 18) = Inr delta" and
    km: "k_max_of (data ! 18) = Inr k" and
    w: "w = drop_marked (sentinel F) flux (wavelengths F start delta k)"
    by blast
  let ?keep = "filter (\<lambda>i. \<not> (i < length flux \<and> flux ! i = sentinel F)) [0..<nat k]"
  have "set ?keep \<subseteq> {..<nat k}" by auto
  then have "map (\<lambda>i. wavelengths F start delta k ! i) ?keep =
        map (\<lambda>i. fadd F (fmul F delta (float_of_int F (int i))) start) ?keep"
    by (intro map_cong) (auto simp: wavelengths_def)
  then have "w = map (\<lambda>i. fadd F (fmul F delta (float_of_int F (int i))) start) ?keep"
    unfolding w by (simp add: drop_marked_project project_def)
  with dc ws wd km show ?thesis
    unfolding wave_start_of_Inr wave_delta_of_Inr k_max_of_Inr data_cols_Inr by blast
qed

text \<open>
  C3, an instance: for the high dispersion record with header line
  \<open>w=+4000.0,d=2.5*k,2\<close> and three body lines, the second of them flagged, the start
  is 4000, the delta 2.5 and \<open>k_max\<close> 3; the retained indices are 0 and 2, and the
  result holds \<open>2.5 * 0 + 4000 = 4000\<close> and \<open>2.5 * 2 + 4000 = 4005\<close>.
\<close>

theorem high_wavelength_progression_witness:
  "classify rec_high_three = Inr HighDispersion \<and>
   decode dec_ops rec_high_three = Inr ([4000, 4005], [1, 1], [1 / 10, 1 / 10]) \<and>
   rec_high_three ! 18 = ''w=+4000.0,d=2.5*k,2'' \<and>
   [4000, 4005 :: rat] =
     map (\<lambda>i. fadd dec_ops (fmul dec_ops (5 / 2) (float_of_int dec_ops (int i))) 4000)
       (filter (\<lambda>i. \<not> (i < length [1, - 1, 1 :: rat] \<and> [1, - 1, 1 :: rat] ! i = sentinel dec_ops))
          [0..<nat 3]) \<and>
   filter (\<lambda>i. \<not> (i < length [1, - 1, 1 :: rat] \<and> [1, - 1, 1 :: rat] ! i = sentinel dec_ops))
     [0..<nat 3] = [0, 2]"
proof -
  from high_wavelength_progression[OF classify_more(1) decode_rec_high_three]
  obtain start delta k flux where
    s: "float_of_str dec_ops (text_before (CHR '','')
          (text_before (CHR ''+'') (text_after (CHR ''+'') (rec_high_three ! 18)))) = Some start" and
    d: "float_of_str dec_ops (str_strip (text_after_last (CHR ''='')
          (text_before (CHR ''*'') (rec_high_three ! 18)))) = Some delta" and
    k: "int_of_str (str_strip (text_after_last (CHR '','') (rec_high_three ! 18))) = Some (k - 1)" and
    f: "parse_column dec_ops (map normalize_line (drop 19 (butlast rec_high_three))) 0 = Inr flux" and
    w: "[4000, 4005] = map (\<lambda>i. fadd dec_ops (fmul dec_ops delta (float_of_int dec_ops (int i))) start)
           (filter (\<lambda>i. \<not> (i < length flux \<and> flux ! i = sentinel dec_ops)) [0..<nat k])"
    by (elim exE conjE) (rule that)
  from s have st: "start = 4000"
    by (simp add: rec_more text_before_def text_after_def dec_tokens)
  from d have dl: "delta = 5 / 2"
    by (simp add: rec_more text_before_def text_after_last_def str_strip_def is_space_def dec_tokens)
  from k have kk: "k = 3"
    by (simp add: rec_more text_after_last_def str_strip_def is_space_def int_tokens)
  from f have fl: "flux = [1, - 1, 1]"
    by (simp add: rec_more normalize_samples index_def to_float_def dec_tokens str_split.simps(2))
  from w have p: "[4000, 4005 :: rat] =
     map (\<lambda>i. fadd dec_ops (fmul dec_ops (5 / 2) (float_of_int dec_ops (int i))) 4000)
       (filter (\<lambda>i. \<not> (i < length [1, - 1, 1 :: rat] \<and> [1, - 1, 1 :: rat] ! i = sentinel dec_ops))
          [0..<nat 3])"
    unfolding st dl kk fl .
  have keep: "filter (\<lambda>i. \<not> (i < length [1, - 1, 1 :: rat] \<and> [1, - 1, 1 :: rat] ! i = sentinel dec_ops))
     [0..<nat 3] = [0, 2]"
    by (simp add: sentinel_dec eval_nat_numeral)
  from classify_more(1) decode_rec_high_three rec_more(1) p keep show ?thesis
    by (intro conjI)
qed

subsection \<open>C4: the loop against the projection through the retained indices\<close>

text \<open>
  Claim C4. When the three lists have equal length as the loop begins, the in-place
  deletion loop, started at \<open>i = 0\<close> with \<open>ln = len(flux)\<close>, ends without an
  exception and returns the three lists projected through the one retained-index list
  \<open>{ i : flux[i] != bad }\<close>, which is increasing: exactly the flagged samples are
  removed, at the same index in all three lists, and the order of the others is kept.
\<close>

theorem compact_loop_refines_projection:
  assumes "length wav = length flux" and "length flux_std_dev = length flux"
  shows "compact_loop bad (wav, flux, flux_std_dev) 0 (length flux) =
         Inr (compact_spec bad (wav, flux, flux_std_dev))"
proof -
  have "bad \<notin> set (drop (length wav) flux)" using assms by simp
  then show ?thesis
    using compact_loop_0[OF assms(2), of bad wav] assms
    by (simp add: compact_spec_def Let_def drop_marked_same_length drop_marked_self[symmetric])
qed

text \<open>
  C4, an instance with adjacent flagged values at indices 0 and 1 and a flagged last
  value.
\<close>

theorem compact_loop_refines_projection_witness:
  "length [10, 20, 30, 40 :: int] = length [- 1, - 1, 5, - 1 :: int] \<and>
   length [1, 2, 3, 4 :: int] = length [- 1, - 1, 5, - 1 :: int] \<and>
   compact_loop (- 1) ([10, 20, 30, 40], [- 1, - 1, 5, - 1], [1, 2, 3, 4 :: int]) 0
     (length [- 1, - 1, 5, - 1 :: int]) = Inr ([30], [5], [3])"
proof -
  have "compact_spec (- 1) ([10, 20, 30, 40], [- 1, - 1, 5, - 1], [1, 2, 3, 4 :: int])
        = ([30], [5], [3])"
    by (simp add: compact_spec_def retained_indices_def project_def upt_conv_Cons)
  with compact_loop_refines_projection[of "[10, 20, 30, 40 :: int]" "[- 1, - 1, 5, - 1]" "[1, 2, 3, 4]" "- 1"]
  show ?thesis by simp
qed

subsection \<open>C5: classification by the marker character\<close>

text \<open>
  Claim C5. For every input with a non-empty line at index 18, the record is
  classified as HighDispersion exactly when that line starts with \<open>w\<close> and as
  LowDispersion otherwise, \<open>decode\<close> runs the branch of that layout, and any other
  input with the same line at index 18 gets the same classification.
\<close>

theorem classify_by_marker:
  assumes "18 < length data" and "data ! 18 \<noteq> []"
  shows "classify data = Inr (if hd (data ! 18) = CHR ''w'' then HighDispersion else LowDispersion) \<and>
         decode F data = (if hd (data ! 18) = CHR ''w'' then decode_high F data else decode_low F data) \<and>
         (\<forall>data'. 18 < length data' \<and> data' ! 18 = data ! 18 \<longrightarrow> classify data' = classify data)"
proof -
  have c: "classify data = Inr (if hd (data ! 18) = CHR ''w'' then HighDispersion else LowDispersion)"
    using assms by (simp add: classify_Inr)
  have "classify data' = classify data" if "18 < length data'" "data' ! 18 = data ! 18" for data'
  proof -
    have "classify data' = Inr (if hd (data' ! 18) = CHR ''w'' then HighDispersion else LowDispersion)"
      using that assms by (simp add: classify_Inr)
    with c that show ?thesis by simp
  qed
  with c show ?thesis by (simp add: decode_def)
qed

text \<open>
  C5, instances: the high and the low dispersion sample records, and a second high
  dispersion record that shares line 18 with the first.
\<close>

theorem classify_by_marker_witness:
  "18 < length rec_high \<and> rec_high ! 18 \<noteq> [] \<and>
   classify rec_high = Inr HighDispersion \<and>
   decode dec_ops rec_high = decode_high dec_ops rec_high \<and>
   classify rec_high_all_bad_long = classify rec_high \<and>
   18 < length rec_low \<and> rec_low ! 18 \<noteq> [] \<and>
   classify rec_low = Inr LowDispersion \<and>
   decode dec_ops rec_low = decode_low dec_ops rec_low"
proof -
  have h: "18 < length rec_high" "rec_high ! 18 \<noteq> []"
    by (simp_all add: rec_lengths rec_line_18)
  have l: "18 < length rec_low" "rec_low ! 18 \<noteq> []"
    by (simp_all add: rec_lengths rec_line_18)
  from classify_by_marker[OF h, of dec_ops] classify_by_marker[OF l, of dec_ops] h l
  show ?thesis
    by (simp add: rec_line_18 classify_samples)
qed

subsection \<open>C6: records shorter than the header\<close>

text \<open>
  Claim C6, as the code has it. For every input with fewer than 19 lines, whatever
  its layout, \<open>decode\<close> ends with the \<open>IndexError\<close> of the subscript \<open>data[18]\<close>.
\<close>

theorem short_record_index_error:
  assumes "length data < 19"
  shows "decode F data = Inl IndexError"
  using assms by (simp add: decode_def classify_def index_def)

text \<open>
  C6, an instance: a record of exactly 18 lines.
\<close>

theorem short_record_index_error_witness:
  "length hdr18 < 19 \<and> decode dec_ops hdr18 = Inl IndexError"
  using short_record_index_error[of hdr18 dec_ops]
  by (simp add: length_hdr18)

text \<open>
  C6 as stated fails: on a record of 17 lines \<open>decode\<close> raises the out-of-range
  fault \<open>IndexError\<close>.
\<close>

theorem short_record_raises_index_error:
  "decode dec_ops (replicate 17 ''IUE'') = Inl IndexError"
  by (simp add: decode_def classify_def index_def)

subsection \<open>C7: non-numeric tokens\<close>

text \<open>
  Claim C7, as the code has it. For every classified input in which one of the first
  three whitespace-separated tokens of a body line is not accepted by \<open>float()\<close>,
  \<open>decode\<close> returns no table: it ends with an exception, which is an \<open>IndexError\<close>
  or a \<open>ValueError\<close> carrying a token that \<open>float()\<close> rejected.
\<close>

theorem non_numeric_token_aborts:
  assumes "classify data = Inr l"
    and "body = (case l of LowDispersion \<Rightarrow> drop 18 (butlast data)
                         | HighDispersion \<Rightarrow> drop 19 (butlast data))"
    and "x \<in> set body"
    and "toks = filter (\<lambda>t. t \<noteq> []) (str_split (CHR '' '') x)"
    and "i < 3" and "i < length toks"
    and "float_of_str F (toks ! i) = None"
  shows "\<exists>err. decode F data = Inl err \<and>
           (err = IndexError \<or> (\<exists>t. err = ValueError t \<and> float_of_str F t = None))"
proof -
  from assms(1) have len: "18 < length data" by (simp add: classify_Inr)
  let ?lines = "map normalize_line body"
  from assms(4,6) have "filter (\<lambda>t. t \<noteq> []) (str_split (CHR '' '') x) \<noteq> []" by auto
  then have "str_split (CHR '' '') (normalize_line x) = toks"
    unfolding assms(4) by (rule split_normalize_line)
  with assms(6) have "index (str_split (CHR '' '') (normalize_line x)) i = Inr (toks ! i)"
    by (simp add: index_def)
  moreover from assms(3) have "normalize_line x \<in> set ?lines" by simp
  ultimately obtain e0 where "parse_column F ?lines i = Inl e0"
    using assms(7) parse_column_bad_token by blast
  from data_cols_bad_column[OF this assms(5)] obtain e1 where e1: "data_cols F ?lines = Inl e1"
    by blast
  have "decode F data = Inl e1"
  proof (cases l)
    case LowDispersion
    with assms(1,2) e1 show ?thesis by (simp add: decode_Low decode_low_def)
  next
    case HighDispersion
    with assms(1,2) e1 len show ?thesis by (simp add: decode_High decode_high_unfold)
  qed
  with data_cols_error[OF e1] show ?thesis by simp
qed

text \<open>
  C7, an instance: the low dispersion record whose body line is
  \<open>4500.0 abc 3.0\<close>.
\<close>

theorem non_numeric_token_aborts_witness:
  "classify rec_low_bad_token = Inr LowDispersion \<and>
   ''4500.0 abc 3.0'' \<in> set (drop 18 (butlast rec_low_bad_token)) \<and>
   filter (\<lambda>t. t \<noteq> []) (str_split (CHR '' '') ''4500.0 abc 3.0'') ! 1 = ''abc'' \<and>
   float_of_str dec_ops ''abc'' = None \<and>
   (\<exists>err. decode dec_ops rec_low_bad_token = Inl err \<and>
      (err = IndexError \<or> (\<exists>t. err = ValueError t \<and> float_of_str dec_ops t = None)))"
proof -
  have t: "filter (\<lambda>t. t \<noteq> []) (str_split (CHR '' '') ''4500.0 abc 3.0'') = [''4500.0'', ''abc'', ''3.0'']"
    by (simp add: str_split.simps(2))
  have b: "drop 18 (butlast rec_low_bad_token) =
     (case LowDispersion of LowDispersion \<Rightarrow> drop 18 (butlast rec_low_bad_token)
                          | HighDispersion \<Rightarrow> drop 19 (butlast rec_low_bad_token))"
    by simp
  have x: "''4500.0 abc 3.0'' \<in> set (drop 18 (butlast rec_low_bad_token))"
    by (simp add: rec_bodies)
  have i: "(1::nat) < 3" "1 < length (filter (\<lambda>t. t \<noteq> []) (str_split (CHR '' '') ''4500.0 abc 3.0''))"
    by (simp_all add: t)
  have n: "float_of_str dec_ops (filter (\<lambda>t. t \<noteq> []) (str_split (CHR '' '') ''4500.0 abc 3.0'') ! 1) = None"
    by (simp add: t dec_tokens)
  from non_numeric_token_aborts[OF classify_samples(2) b x refl i n] x n
  show ?thesis
    by (simp add: classify_samples t)
qed

text \<open>
  C7 as stated fails: on that record the exception is the \<open>ValueError\<close> of the
  built-in, carrying the token \<open>abc\<close> and neither the line index 18 nor the text of
  the line.
\<close>

theorem bad_token_raises_value_error:
  "classify rec_low_bad_token = Inr LowDispersion \<and>
   decode dec_ops rec_low_bad_token = Inl (ValueError ''abc'')"
  by (simp add: classify_samples decode_rec_low_bad_token)

subsection \<open>C8: a record whose samples are all flagged\<close>

text \<open>
  Claim C8, as the code has it. For every HighDispersion record whose body lines and
  header parse, whose every flux value is the sentinel and whose header \<open>k_max\<close> is
  the number of body lines, \<open>decode\<close> returns three empty sequences.
\<close>

theorem all_sentinel_high_record:
  assumes "classify data = Inr HighDispersion"
    and "data_cols F (map normalize_line (drop 19 (butlast data))) = Inr (flux, flux_std_dev, background)"
    and "\<forall>v\<in>set flux. v = sentinel F"
    and "wave_start_of F (data ! 18) = Inr wave_start"
    and "wave_delta_of F (data ! 18) = Inr wave_delta"
    and "k_max_of (data ! 18) = Inr k_max"
    and "nat k_max = length (drop 19 (butlast data))"
  shows "decode F data = Inr ([], [], [])"
proof -
  from assms(1) have len: "18 < length data" by (simp add: classify_Inr)
  from assms(2) have lf: "length flux = length (drop 19 (butlast data))"
    and le: "length flux_std_dev = length flux"
    by (auto dest: data_cols_length)
  let ?wav = "wavelengths F wave_start wave_delta k_max"
  have lw: "length ?wav = length flux" using assms(7) lf by simp
  have none: "filter (\<lambda>x. x \<noteq> sentinel F) flux = []"
    using assms(3) by (simp add: filter_empty_conv)
  have "length (drop_marked (sentinel F) flux ?wav) = 0"
    using length_drop_marked_same[OF lw, of "sentinel F"] none by simp
  moreover have "length (drop_marked (sentinel F) flux flux_std_dev) = 0"
    using length_drop_marked_same[OF le, of "sentinel F"] none by simp
  ultimately have "compact_loop (sentinel F) (?wav, flux, flux_std_dev) 0 (length flux) = Inr ([], [], [])"
    using compact_loop_0[OF le, of "sentinel F" ?wav] lw none by simp
  with assms len show ?thesis
    by (simp add: decode_High decode_high_unfold)
qed

text \<open>
  C8, an instance: one flagged body line under a header that gives \<open>k_max = 1\<close>.
\<close>

theorem all_sentinel_high_record_witness:
  "classify rec_high_all_bad = Inr HighDispersion \<and>
   data_cols dec_ops (map normalize_line (drop 19 (butlast rec_high_all_bad))) =
     Inr ([sentinel dec_ops], [1 / 5], [0]) \<and>
   k_max_of (rec_high_all_bad ! 18) = Inr 1 \<and>
   nat 1 = length (drop 19 (butlast rec_high_all_bad)) \<and>
   decode dec_ops rec_high_all_bad = Inr ([], [], [])"
proof -
  have dc: "data_cols dec_ops (map normalize_line (drop 19 (butlast rec_high_all_bad))) =
     Inr ([sentinel dec_ops], [1 / 5], [0])"
    by (simp add: rec_bodies normalize_samples data_cols_samples sentinel_dec)
  have s: "\<forall>v\<in>set [sentinel dec_ops]. v = sentinel dec_ops" by simp
  have ws: "wave_start_of dec_ops (rec_high_all_bad ! 18) = Inr 4000"
    and wd: "wave_delta_of dec_ops (rec_high_all_bad ! 18) = Inr (5 / 2)"
    and km: "k_max_of (rec_high_all_bad ! 18) = Inr 1"
    by (simp_all add: rec_line_18 header_samples)
  have n: "nat 1 = length (drop 19 (butlast rec_high_all_bad))"
    by (simp add: rec_bodies)
  from all_sentinel_high_record[OF classify_samples(5) dc s ws wd km n] dc km n
  show ?thesis by (simp add: classify_samples)
qed

text \<open>
  C8 as stated fails: one flagged body line under a header that gives \<open>k_max = 2\<close>
  leaves one wavelength in the result.
\<close>

theorem all_sentinel_leaves_wavelengths:
  "classify rec_high_all_bad_long = Inr HighDispersion \<and>
   decode dec_ops rec_high_all_bad_long = Inr ([8005 / 2], [], [])"
  by (simp add: classify_samples decode_rec_high_all_bad_long)

subsection \<open>C9: the lines the fetcher returns\<close>

text \<open>
  Claim C9, as the code has it. The text is split at every newline: there is one
  line more than there are newlines, and joining the pieces with newlines gives the
  text back, so no line is dropped and the order is kept. Each returned line is the
  corresponding piece with whitespace removed at both ends: the piece is the returned
  line between a prefix and a suffix of whitespace, and a non-empty returned line
  neither starts nor ends with whitespace.
\<close>

theorem fetch_lines_strip_both_ends:
  "length (fetch_lines text) = Suc (length (filter (\<lambda>c. c = CHR 0x0A) text)) \<and>
   str_join [CHR 0x0A] (str_split (CHR 0x0A) text) = text \<and>
   (\<forall>i < length (fetch_lines text).
      \<exists>pre suf. str_split (CHR 0x0A) text ! i = pre @ fetch_lines text ! i @ suf \<and>
        list_all is_space pre \<and> list_all is_space suf \<and>
        (fetch_lines text ! i \<noteq> [] \<longrightarrow>
           \<not> is_space (hd (fetch_lines text ! i)) \<and> \<not> is_space (last (fetch_lines text ! i))))"
  using str_strip_decomp
  by (simp add: fetch_lines_def length_str_split str_join_split)

text \<open>
  C9, an instance: a text of two lines, at its first line.
\<close>

theorem fetch_lines_strip_both_ends_witness:
  "length (fetch_lines (''  ab '' @ CHR 0x0A # ''c'')) = 2 \<and>
   (\<exists>pre suf. str_split (CHR 0x0A) (''  ab '' @ CHR 0x0A # ''c'') ! 0 =
        pre @ fetch_lines (''  ab '' @ CHR 0x0A # ''c'') ! 0 @ suf \<and>
        list_all is_space pre \<and> list_all is_space suf \<and>
        (fetch_lines (''  ab '' @ CHR 0x0A # ''c'') ! 0 \<noteq> [] \<longrightarrow>
           \<not> is_space (hd (fetch_lines (''  ab '' @ CHR 0x0A # ''c'') ! 0)) \<and>
           \<not> is_space (last (fetch_lines (''  ab '' @ CHR 0x0A # ''c'') ! 0))))"
proof -
  let ?t = "''  ab '' @ CHR 0x0A # ''c''"
  have l: "length (fetch_lines ?t) = 2"
    by (simp add: fetch_lines_def str_split.simps(2))
  then have "0 < length (fetch_lines ?t)" by simp
  with fetch_lines_strip_both_ends[of ?t] l show ?thesis by blast
qed

text \<open>
  C9 as stated fails: the two leading blanks of the first line are removed.
\<close>

theorem fetch_lines_strips_leading:
  "str_split (CHR 0x0A) (''  ab '' @ CHR 0x0A # ''c'') = [''  ab '', ''c''] \<and>
   fetch_lines (''  ab '' @ CHR 0x0A # ''c'') = [''ab'', ''c'']"
  by (simp add: fetch_lines_def str_split.simps(2) str_strip_def is_space_def)

subsection \<open>C10: an empty line at index 18\<close>

text \<open>
  Claim C10. For every input with at least 19 lines whose line at index 18 is empty,
  the classification, and with it \<open>decode\<close>, ends with the \<open>IndexError\<close> of the
  subscript \<open>data[18][0]\<close>.
\<close>

theorem empty_marker_line_index_error:
  assumes "19 \<le> length data" and "data ! 18 = []"
  shows "classify data = Inl IndexError \<and> decode F data = Inl IndexError"
  using assms by (simp add: decode_def classify_def index_def)

text \<open>
  C10, an instance: a record with an empty line after its 18 metadata lines.
\<close>

theorem empty_marker_line_index_error_witness:
  "19 \<le> length rec_empty_marker \<and> rec_empty_marker ! 18 = [] \<and>
   classify rec_empty_marker = Inl IndexError \<and>
   decode dec_ops rec_empty_marker = Inl IndexError"
proof -
  have a: "19 \<le> length rec_empty_marker" "rec_empty_marker ! 18 = []"
    by (simp_all add: rec_lengths rec_line_18)
  from empty_marker_line_index_error[OF a, of dec_ops] a show ?thesis by simp
qed

end
